theory Spec2Isabelle
  imports Main "HOL-Library.Char_ord" "HOL-Library.List_Lexorder"
begin

section \<open>The comment scanner (grammars/wolfram/src/scanner.c)\<close>

subsection \<open>The lexer interface\<close>

text \<open>
  The scanner talks to the host parser through a \<open>TSLexer\<close>: the current lookahead
  character, \<open>advance\<close> (with a flag saying whether the character is skipped as
  white space), \<open>mark_end\<close>, \<open>eof\<close> and the field \<open>result_symbol\<close>. The lexer is
  modelled by the unread input, the cursor, the start of the token under construction
  (a skipping advance moves it to the cursor) and the marked end. At the end of input
  the lookahead is the character 0 and advancing leaves the lexer as it is. Characters
  are 8-bit.
\<close>

datatype TokenType = COMMENT

record TSLexer =
  unread :: string
  cursor :: nat
  token_start :: nat
  token_end :: "nat option"
  result_symbol :: "TokenType option"

definition lookahead :: "TSLexer \<Rightarrow> char" where
  "lookahead lexer = (case unread lexer of [] \<Rightarrow> CHR 0x00 | c # _ \<Rightarrow> c)"

definition eof :: "TSLexer \<Rightarrow> bool" where
  "eof lexer = (unread lexer = [])"

definition advance :: "TSLexer \<Rightarrow> bool \<Rightarrow> TSLexer" where
  "advance lexer skip =
     (case unread lexer of
        [] \<Rightarrow> lexer
      | _ # cs \<Rightarrow>
          lexer\<lparr>unread := cs, cursor := cursor lexer + 1,
                token_start := (if skip then cursor lexer + 1 else token_start lexer)\<rparr>)"

definition mark_end :: "TSLexer \<Rightarrow> TSLexer" where
  "mark_end lexer = lexer\<lparr>token_end := Some (cursor lexer)\<rparr>"

definition lexer_at :: "string \<Rightarrow> TSLexer" where
  "lexer_at s = \<lparr>unread = s, cursor = 0, token_start = 0, token_end = None,
                 result_symbol = None\<rparr>"

text \<open>The white-space class of \<open>iswspace\<close> in the "C" locale.\<close>

definition iswspace :: "char \<Rightarrow> bool" where
  "iswspace c = (c = CHR '' '' \<or> c = CHR 0x09 \<or> c = CHR 0x0A \<or> c = CHR 0x0B
                 \<or> c = CHR 0x0C \<or> c = CHR 0x0D)"

subsection \<open>Scanning a comment\<close>

text \<open>
  One iteration of the \<open>while\<close> loop of \<open>scan_comment\<close>, entered when the input is not
  exhausted: it either returns from the function or goes round again with the new depth.
  The counter \<open>depth\<close> is a C \<open>int\<close>. It starts at 1, never falls below 1 inside the
  loop, and rises by one for every two characters read at most, so on an input that the
  host addresses by 32-bit offsets it stays in the range of \<open>int\<close>; it is modelled as an
  integer.
\<close>

datatype iteration = Return bool TSLexer | Continue int TSLexer

definition scan_comment_body :: "int \<Rightarrow> TSLexer \<Rightarrow> iteration" where
  "scan_comment_body depth lexer =
     (if lookahead lexer = CHR ''*'' then
        (let lexer1 = advance lexer False in
         if lookahead lexer1 = CHR '')'' then
           (if depth - 1 = 0 then
              Return True (mark_end (advance (lexer1\<lparr>result_symbol := Some COMMENT\<rparr>) False))
            else Continue (depth - 1) lexer1)
         else Continue depth lexer1)
      else if lookahead lexer = CHR ''('' then
        (let lexer1 = advance lexer False in
         if lookahead lexer1 = CHR ''*'' then Continue (depth + 1) lexer1
         else Continue depth lexer1)
      else Continue depth (advance lexer False))"

lemma scan_comment_body_shorter:
  "\<not> eof lexer \<Longrightarrow> scan_comment_body depth lexer = Continue d lexer'
   \<Longrightarrow> length (unread lexer') < length (unread lexer)"
  by (cases "unread lexer")
     (auto simp: scan_comment_body_def eof_def advance_def Let_def split: if_splits)

function scan_comment_loop :: "int \<Rightarrow> TSLexer \<Rightarrow> bool \<times> TSLexer" where
  "scan_comment_loop depth lexer =
     (if eof lexer then (False, lexer)
      else (case scan_comment_body depth lexer of
              Return r lexer' \<Rightarrow> (r, lexer')
            | Continue depth' lexer' \<Rightarrow> scan_comment_loop depth' lexer'))"
  by pat_completeness auto
termination
  by (relation "measure (\<lambda>(depth, lexer). length (unread lexer))")
     (auto dest: scan_comment_body_shorter)

declare scan_comment_loop.simps [simp del]

definition scan_comment :: "TSLexer \<Rightarrow> bool \<times> TSLexer" where
  "scan_comment lexer = scan_comment_loop 1 lexer"

subsection \<open>The scan entry point\<close>

function skip_whitespace :: "TSLexer \<Rightarrow> TSLexer" where
  "skip_whitespace lexer =
     (if iswspace (lookahead lexer) then skip_whitespace (advance lexer True) else lexer)"
  by pat_completeness auto
termination
  by (relation "measure (\<lambda>lexer. length (unread lexer))")
     (auto simp: iswspace_def lookahead_def advance_def split: list.splits)

declare skip_whitespace.simps [simp del]

text \<open>The arguments \<open>payload\<close> and \<open>valid_symbols\<close> are not read by the function.\<close>

definition tree_sitter_wolfram_external_scanner_scan ::
  "TSLexer \<Rightarrow> bool list \<Rightarrow> bool \<times> TSLexer" where
  "tree_sitter_wolfram_external_scanner_scan lexer valid_symbols =
     (let lexer0 = skip_whitespace lexer in
      if lookahead lexer0 = CHR ''('' then
        (let lexer1 = advance lexer0 False in
         if lookahead lexer1 = CHR ''*'' then scan_comment (advance lexer1 False)
         else (False, lexer1))
      else (False, lexer0))"

section \<open>The highlight generator (tools/generate-highlights.ts)\<close>

subsection \<open>Strings\<close>

text \<open>
  JavaScript strings are modelled as lists of 8-bit characters, one per code unit.
  \<open>substring s a b\<close> is \<open>s.substring(a, b)\<close>: both indices are clamped to the length
  and swapped when out of order; \<open>s.substring(a)\<close> is \<open>drop a s\<close>.
\<close>

definition substring :: "string \<Rightarrow> nat \<Rightarrow> nat \<Rightarrow> string" where
  "substring s a b =
     (let a' = min a (length s); b' = min b (length s)
      in take (max a' b' - min a' b') (drop (min a' b') s))"

definition startsWith :: "string \<Rightarrow> string \<Rightarrow> bool" where
  "startsWith s p = (take (length p) s = p)"

definition endsWith :: "string \<Rightarrow> string \<Rightarrow> bool" where
  "endsWith s p = (length p \<le> length s \<and> drop (length s - length p) s = p)"

subsection \<open>splitTopLevel\<close>

text \<open>
  The \<open>for\<close> loop of \<open>splitTopLevel\<close>: the second argument is the part of \<open>s\<close> from index
  \<open>i\<close> on, so its head is \<open>s[i]\<close>; the result is the array \<open>parts\<close> from the current
  piece on.
\<close>

fun splitTopLevel_loop :: "string \<Rightarrow> string \<Rightarrow> nat \<Rightarrow> int \<Rightarrow> nat \<Rightarrow> string list" where
  "splitTopLevel_loop s [] i depth start = [drop start s]"
| "splitTopLevel_loop s (c # cs) i depth start =
     (if c = CHR ''('' then splitTopLevel_loop s cs (i + 1) (depth + 1) start
      else if c = CHR '')'' then splitTopLevel_loop s cs (i + 1) (depth - 1) start
      else if c = CHR ''|'' \<and> depth = 0 then
        substring s start i # splitTopLevel_loop s cs (i + 1) depth (i + 1)
      else splitTopLevel_loop s cs (i + 1) depth start)"

definition splitTopLevel :: "string \<Rightarrow> string list" where
  "splitTopLevel s = splitTopLevel_loop s s 0 0 0"

subsection \<open>expandTrie and doExpand\<close>

text \<open>
  The first loop of \<open>doExpand\<close> either meets a \<open>|\<close> at depth 0 (and the function returns
  through \<open>splitTopLevel\<close>) or runs to the end with \<open>parenStart\<close>, where \<open>None\<close> stands for
  -1. The assignment \<open>parenStart = i\<close> is made at every \<open>(\<close> met at depth 0, as in the source.
  The second loop looks for the parenthesis that closes the one at \<open>parenStart\<close>.
\<close>

datatype first_scan = TopLevelBar | NoTopLevelBar "nat option"

fun doExpand_findStart :: "string \<Rightarrow> nat \<Rightarrow> int \<Rightarrow> nat option \<Rightarrow> first_scan" where
  "doExpand_findStart [] i depth parenStart = NoTopLevelBar parenStart"
| "doExpand_findStart (c # cs) i depth parenStart =
     (if c = CHR ''('' then
        doExpand_findStart cs (i + 1) (depth + 1) (if depth = 0 then Some i else parenStart)
      else if c = CHR '')'' then doExpand_findStart cs (i + 1) (depth - 1) parenStart
      else if c = CHR ''|'' \<and> depth = 0 then TopLevelBar
      else doExpand_findStart cs (i + 1) depth parenStart)"

fun doExpand_findEnd :: "string \<Rightarrow> nat \<Rightarrow> int \<Rightarrow> nat option" where
  "doExpand_findEnd [] i depth = None"
| "doExpand_findEnd (c # cs) i depth =
     (if c = CHR ''('' then doExpand_findEnd cs (i + 1) (depth + 1)
      else if c = CHR '')'' then
        (if depth - 1 = 0 then Some i else doExpand_findEnd cs (i + 1) (depth - 1))
      else doExpand_findEnd cs (i + 1) depth)"

text \<open>Facts for the termination of \<open>doExpand\<close>: every recursive call is on a shorter string.\<close>

lemma substring_le: "a \<le> b \<Longrightarrow> substring s a b = take (b - a) (drop a s)"
  by (auto simp: substring_def Let_def min_def max_def)

lemma length_substring: "a \<le> b \<Longrightarrow> b \<le> length s \<Longrightarrow> length (substring s a b) = b - a"
  by (simp add: substring_le)

lemma splitTopLevel_loop_total:
  "start \<le> i \<Longrightarrow> i + length rest = length s \<Longrightarrow>
     sum_list (map length (splitTopLevel_loop s rest i depth start))
       + length (splitTopLevel_loop s rest i depth start) = length s + 1 - start"
proof (induction rest arbitrary: i depth start)
  case Nil
  then show ?case by simp
next
  case (Cons c cs)
  show ?case
  proof (cases "c = CHR ''|'' \<and> depth = 0")
    case True
    have "sum_list (map length (splitTopLevel_loop s cs (Suc i) 0 (Suc i)))
            + length (splitTopLevel_loop s cs (Suc i) 0 (Suc i)) = length s + 1 - Suc i"
      using Cons.prems by (intro Cons.IH) auto
    moreover have "length (substring s start i) = i - start"
      using Cons.prems by (simp add: length_substring)
    ultimately show ?thesis using True Cons.prems by simp
  next
    case False
    have "\<And>d. sum_list (map length (splitTopLevel_loop s cs (Suc i) d start))
            + length (splitTopLevel_loop s cs (Suc i) d start) = length s + 1 - start"
      using Cons.prems by (intro Cons.IH) auto
    with False show ?thesis by auto
  qed
qed

lemma splitTopLevel_loop_nonempty: "splitTopLevel_loop s rest i depth start \<noteq> []"
  by (induction rest arbitrary: i depth start) auto

lemma splitTopLevel_part_le:
  assumes "p \<in> set (splitTopLevel s)"
  shows "length p \<le> length s"
proof -
  let ?ps = "splitTopLevel s"
  have t: "sum_list (map length ?ps) + length ?ps = length s + 1"
    using splitTopLevel_loop_total[of 0 0 s s 0] by (simp add: splitTopLevel_def)
  have "length p \<le> sum_list (map length ?ps)"
    using assms by (simp add: member_le_sum_list)
  moreover have "1 \<le> length ?ps"
    using assms by (cases ?ps) auto
  ultimately show ?thesis using t by linarith
qed

lemma findStart_bar_splits:
  "doExpand_findStart rest i depth ps = TopLevelBar \<Longrightarrow>
     2 \<le> length (splitTopLevel_loop s rest i depth start)"
proof (induction rest arbitrary: i depth ps start)
  case Nil
  then show ?case by simp
next
  case (Cons c cs)
  then show ?case
    using splitTopLevel_loop_nonempty[of s cs "i + 1" depth "i + 1"]
    by (auto split: if_splits simp: Suc_le_eq)
qed

lemma splitTopLevel_part_less:
  assumes "doExpand_findStart s 0 0 None = TopLevelBar" and "p \<in> set (splitTopLevel s)"
  shows "length p < length s"
proof -
  let ?ps = "splitTopLevel s"
  have t: "sum_list (map length ?ps) + length ?ps = length s + 1"
    using splitTopLevel_loop_total[of 0 0 s s 0] by (simp add: splitTopLevel_def)
  have "length p \<le> sum_list (map length ?ps)"
    using assms(2) by (simp add: member_le_sum_list)
  moreover have "2 \<le> length ?ps"
    using findStart_bar_splits[OF assms(1)] by (simp add: splitTopLevel_def)
  ultimately show ?thesis using t by linarith
qed

lemma findStart_paren:
  "doExpand_findStart rest i depth ps0 = NoTopLevelBar (Some ps) \<Longrightarrow>
     ps0 = Some ps \<or> (i \<le> ps \<and> ps < i + length rest \<and> rest ! (ps - i) = CHR ''('')"
proof (induction rest arbitrary: i depth ps0)
  case Nil
  then show ?case by simp
next
  case (Cons c cs)
  show ?case
  proof (cases "c = CHR ''(''")
    case True
    with Cons.prems have
      "doExpand_findStart cs (i + 1) (depth + 1) (if depth = 0 then Some i else ps0)
         = NoTopLevelBar (Some ps)" by simp
    from Cons.IH[OF this] True show ?thesis
      by (auto split: if_splits simp: nth_Cons')
  next
    case False
    with Cons.prems have
      "\<exists>d. doExpand_findStart cs (i + 1) d ps0 = NoTopLevelBar (Some ps)"
      by (auto split: if_splits)
    then obtain d where "doExpand_findStart cs (i + 1) d ps0 = NoTopLevelBar (Some ps)" ..
    from Cons.IH[OF this] show ?thesis
      by (auto simp: nth_Cons')
  qed
qed

lemma findEnd_range:
  "doExpand_findEnd rest i depth = Some pe \<Longrightarrow> i \<le> pe \<and> pe < i + length rest"
proof (induction rest arbitrary: i depth)
  case Nil
  then show ?case by simp
next
  case (Cons c cs)
  then show ?case by (fastforce split: if_splits)
qed

lemma findEnd_after_paren:
  assumes "ps < length s" and "s ! ps = CHR ''(''"
    and "doExpand_findEnd (drop ps s) ps 0 = Some pe"
  shows "ps < pe \<and> pe < length s"
proof -
  have "drop ps s = CHR ''('' # drop (Suc ps) s"
    using assms(1,2) by (simp add: Cons_nth_drop_Suc[symmetric])
  with assms(3) have "doExpand_findEnd (drop (Suc ps) s) (ps + 1) 1 = Some pe" by simp
  from findEnd_range[OF this] have "ps + 1 \<le> pe" and "pe < ps + 1 + (length s - Suc ps)"
    by simp_all
  with assms(1) show ?thesis by linarith
qed

text \<open>
  \<open>doExpand\<close> pushes names onto the array \<open>results\<close>; the model takes the array and returns
  it extended.
\<close>

function doExpand :: "string \<Rightarrow> string list \<Rightarrow> string list" where
  "doExpand s results =
     (case doExpand_findStart s 0 0 None of
        TopLevelBar \<Rightarrow> fold (\<lambda>alt rs. doExpand alt rs) (splitTopLevel s) results
      | NoTopLevelBar None \<Rightarrow> (if length s > 0 then results @ [s] else results)
      | NoTopLevelBar (Some parenStart) \<Rightarrow>
          (let prefix = substring s 0 parenStart in
           case doExpand_findEnd (drop parenStart s) parenStart 0 of
             None \<Rightarrow> (if length prefix > 0 then results @ [prefix] else results)
           | Some parenEnd \<Rightarrow>
               (let inner = substring s (parenStart + 1) parenEnd;
                    suffix = drop (parenEnd + 1) s;
                    inner = (if startsWith inner ''?:'' then drop 2 inner else inner)
                in fold (\<lambda>alt rs. doExpand (prefix @ alt @ suffix) rs)
                     (splitTopLevel inner) results)))"
  by pat_completeness auto
termination
proof (relation "measure (\<lambda>(s, results). length s)", goal_cases)
  case 1
  show ?case by simp
next
  case (2 s results alt rs)
  then show ?case by (simp add: splitTopLevel_part_less)
next
  case (3 s results x2 parenStart prefix parenEnd inner suffix inner' alt rs)
  from 3 findStart_paren[of s 0 0 None parenStart]
  have ps: "parenStart < length s" "s ! parenStart = CHR ''(''" by auto
  from 3 have "doExpand_findEnd (drop parenStart s) parenStart 0 = Some parenEnd" by simp
  from findEnd_after_paren[OF ps this] have pe: "parenStart < parenEnd" "parenEnd < length s"
    by auto
  have "length alt \<le> length inner'" using 3 by (simp add: splitTopLevel_part_le)
  also have "\<dots> \<le> length inner" using 3 by auto
  also have "\<dots> = parenEnd - (parenStart + 1)"
    using 3 pe by (simp add: length_substring)
  finally have "length alt \<le> parenEnd - (parenStart + 1)" .
  moreover have "length prefix = parenStart" using 3 ps by (simp add: length_substring)
  moreover have "length suffix = length s - (parenEnd + 1)" using 3 by simp
  ultimately show ?case using pe by simp
qed

declare doExpand.simps [simp del]

definition expandTrie :: "string \<Rightarrow> string list" where
  "expandTrie s = doExpand s []"

subsection \<open>extractSymbolNames\<close>

text \<open>
  \<open>matchPattern.replace(/^System[`\\`]/, "")\<close>: the class holds the backtick and the
  backslash, so the expression matches \<open>System\<close> and one more character, which is one of
  the two.
\<close>

definition stripSystemPrefix :: "string \<Rightarrow> string" where
  "stripSystemPrefix s =
     (if startsWith s ''System'' \<and> 6 < length s \<and> (s ! 6 = CHR 0x60 \<or> s ! 6 = CHR 0x5C)
      then drop 7 s else s)"

text \<open>
  \<open>pattern.replace(/\(\?!\[.*\]\)$/, "")\<close>: the leftmost place where \<open>(?![\<close> starts, the
  string ends with \<open>])\<close> after it, and no line terminator lies between, is where the
  string is cut. \<open>lookaheadAt t\<close> says that the expression matches the whole of \<open>t\<close>.
\<close>

definition lineTerminator :: "char \<Rightarrow> bool" where
  "lineTerminator c = (c = CHR 0x0A \<or> c = CHR 0x0D)"

definition lookaheadAt :: "string \<Rightarrow> bool" where
  "lookaheadAt t =
     (startsWith t ''(?!['' \<and> 6 \<le> length t \<and> endsWith t ''])''
      \<and> list_all (\<lambda>c. \<not> lineTerminator c) (take (length t - 6) (drop 4 t)))"

fun stripLookahead :: "string \<Rightarrow> string" where
  "stripLookahead [] = []"
| "stripLookahead (c # cs) = (if lookaheadAt (c # cs) then [] else c # stripLookahead cs)"

text \<open>
  The unwrapping of an outer \<open>(?:\<close> ... \<open>)\<close>, with the loop that checks the parentheses of
  the inner part: it returns \<open>balanced\<close> and \<open>depth\<close>.
\<close>

fun balanced_loop :: "string \<Rightarrow> int \<Rightarrow> bool \<times> int" where
  "balanced_loop [] depth = (True, depth)"
| "balanced_loop (c # cs) depth =
     (if c = CHR ''('' then balanced_loop cs (depth + 1)
      else if c = CHR '')'' then
        (if depth - 1 < 0 then (False, depth - 1) else balanced_loop cs (depth - 1))
      else balanced_loop cs depth)"

definition unwrapOuterGroup :: "string \<Rightarrow> string" where
  "unwrapOuterGroup pattern =
     (if startsWith pattern ''(?:'' \<and> endsWith pattern '')'' then
        (let inner = substring pattern 3 (length pattern - 1);
             (balanced, depth) = balanced_loop inner 0
         in if balanced \<and> depth = 0 then inner else pattern)
      else pattern)"

text \<open>The filter \<open>/^[$A-Za-z][$A-Za-z0-9]*$/\<close>.\<close>

definition nameStart :: "char \<Rightarrow> bool" where
  "nameStart c = (c = CHR ''$'' \<or> (CHR ''A'' \<le> c \<and> c \<le> CHR ''Z'')
                  \<or> (CHR ''a'' \<le> c \<and> c \<le> CHR ''z''))"

definition nameChar :: "char \<Rightarrow> bool" where
  "nameChar c = (nameStart c \<or> (CHR ''0'' \<le> c \<and> c \<le> CHR ''9''))"

definition validSymbolName :: "string \<Rightarrow> bool" where
  "validSymbolName n =
     (case n of [] \<Rightarrow> False | c # cs \<Rightarrow> nameStart c \<and> list_all nameChar cs)"

definition extractSymbolNames :: "string \<Rightarrow> string list" where
  "extractSymbolNames matchPattern =
     (let pattern = stripSystemPrefix matchPattern;
          pattern = stripLookahead pattern;
          pattern = unwrapOuterGroup pattern;
          names = expandTrie pattern
      in filter validSymbolName names)"

subsection \<open>generateMatchBlocks and formatMatchBlock\<close>

text \<open>
  \<open>join sep xs\<close> is \<open>xs.join(sep)\<close>, and \<open>newSet xs\<close> is \<open>[...new Set(xs)]\<close>: the elements
  in the order of their first occurrence. The default \<open>sort()\<close> of strings compares code
  units, which is the lexicographic order of the character lists.
\<close>

fun join :: "string \<Rightarrow> string list \<Rightarrow> string" where
  "join sep [] = []"
| "join sep [x] = x"
| "join sep (x # y # ys) = x @ sep @ join sep (y # ys)"

definition newSet :: "string list \<Rightarrow> string list" where
  "newSet xs = fold (\<lambda>x seen. if x \<in> set seen then seen else seen @ [x]) xs []"

definition formatMatchBlock :: "string \<Rightarrow> string list \<Rightarrow> string \<Rightarrow> string" where
  "formatMatchBlock capture names nodeType =
     (let regex = ''^('' @ join ''|'' names @ '')$''
      in ''(('' @ nodeType @ '') @'' @ capture @ [CHR 0x0A] @ ''  (#match? @'' @ capture
         @ '' '' @ [CHR 0x22] @ regex @ [CHR 0x22] @ ''))'')"

text \<open>
  The loop of \<open>generateMatchBlocks\<close> over the sorted names, with its state \<open>lines\<close>,
  \<open>batch\<close>, \<open>currentLen\<close>. What is pushed onto \<open>lines\<close> for a batch is a parameter
  \<open>emit\<close>: the generator pushes \<open>formatMatchBlock capture batch nodeType\<close>, and
  \<open>matchBatches\<close> runs the same loop pushing the batch itself, which gives the lists of
  names that the emitted blocks are made from.
\<close>

definition batch_step ::
  "(string list \<Rightarrow> 'a) \<Rightarrow> nat \<Rightarrow> string \<Rightarrow> 'a list \<times> string list \<times> nat
     \<Rightarrow> 'a list \<times> string list \<times> nat" where
  "batch_step emit maxRegexLen name st =
     (case st of (lines, batch, currentLen) \<Rightarrow>
        (case (if currentLen + length name + 1 > maxRegexLen \<and> length batch > 0
               then (lines @ [emit batch], [], 0) else (lines, batch, currentLen)) of
           (lines, batch, currentLen) \<Rightarrow>
             (lines, batch @ [name], currentLen + length name + 1)))"

definition batch_all :: "(string list \<Rightarrow> 'a) \<Rightarrow> nat \<Rightarrow> string list \<Rightarrow> 'a list" where
  "batch_all emit maxRegexLen sorted' =
     (case fold (batch_step emit maxRegexLen) sorted' ([], [], 0) of
        (lines, batch, currentLen) \<Rightarrow>
          (if length batch > 0 then lines @ [emit batch] else lines))"

definition generateMatchBlocks :: "string \<Rightarrow> string list \<Rightarrow> string \<Rightarrow> nat \<Rightarrow> string" where
  "generateMatchBlocks capture names nodeType maxRegexLen =
     (let sorted' = sort (newSet names);
          lines = batch_all (\<lambda>batch. formatMatchBlock capture batch nodeType) maxRegexLen sorted'
      in join [CHR 0x0A, CHR 0x0A] lines)"

definition matchBatches :: "nat \<Rightarrow> string list \<Rightarrow> string list list" where
  "matchBatches maxRegexLen names = batch_all (\<lambda>batch. batch) maxRegexLen (sort (newSet names))"

subsection \<open>main\<close>

text \<open>
  \<open>SCOPE_MAP\<close> in the order of its entries, which is the order \<open>Object.entries\<close> visits
  them in; \<open>None\<close> is \<open>null\<close>.
\<close>

definition SCOPE_MAP :: "(string \<times> string option) list" where
  "SCOPE_MAP =
     [(''support.function.builtin.wolfram'', Some ''function.builtin''),
      (''constant.language.wolfram'', Some ''constant.builtin''),
      (''support.function.experimental.wolfram'', Some ''function.builtin''),
      (''support.function.undocumented.wolfram'', Some ''function''),
      (''invalid.deprecated.wolfram'', Some ''attribute''),
      (''invalid.bad.wolfram'', None),
      (''invalid.illegal.wolfram'', None),
      (''invalid.illegal.system.wolfram'', None),
      (''invalid.session.wolfram'', Some ''variable.special''),
      (''variable.function.wolfram'', None),
      (''symbol.unrecognized.wolfram'', None)]"

text \<open>
  Of a \<open>TmPattern\<close> the generator reads \<open>match\<close> and \<open>name\<close>; of the grammar, the patterns
  of the repository entry \<open>symbols\<close>. An absent field is \<open>None\<close>.
\<close>

record TmPattern =
  match :: "string option"
  name :: "string option"

record TmGrammar =
  repository :: "(string \<times> TmPattern list) list"

text \<open>\<open>replaceFirst pat rep s\<close> is \<open>s.replace(pat, rep)\<close> for a string \<open>pat\<close>.\<close>

fun replaceFirst :: "string \<Rightarrow> string \<Rightarrow> string \<Rightarrow> string" where
  "replaceFirst pat rep [] = (if pat = [] then rep else [])"
| "replaceFirst pat rep (c # cs) =
     (if startsWith (c # cs) pat then rep @ drop (length pat) (c # cs)
      else c # replaceFirst pat rep cs)"

text \<open>
  The body of the loop over the symbol patterns. The map \<open>symbolsByScope\<close> keeps its keys
  in insertion order and is modelled by an association list.
\<close>

definition addPattern ::
  "TmPattern \<Rightarrow> (string \<times> string list) list \<Rightarrow> (string \<times> string list) list" where
  "addPattern pattern symbolsByScope =
     (case (match pattern, name pattern) of
        (Some m, Some scope) \<Rightarrow>
          (if m = [] \<or> scope = [] then symbolsByScope
           else
             (let names = extractSymbolNames m in
              if length names = 0 then symbolsByScope
              else
                (let symbolsByScope =
                       (if map_of symbolsByScope scope = None
                        then symbolsByScope @ [(scope, [])] else symbolsByScope)
                 in map (\<lambda>(k, v). if k = scope then (k, v @ names) else (k, v))
                      symbolsByScope)))
      | _ \<Rightarrow> symbolsByScope)"

definition extractByScope :: "TmGrammar \<Rightarrow> (string \<times> string list) list" where
  "extractByScope grammar =
     (let symbolPatterns =
            (case map_of (repository grammar) ''symbols'' of None \<Rightarrow> [] | Some ps \<Rightarrow> ps)
      in fold addPattern symbolPatterns [])"

text \<open>
  The sections of the highlight document. Each template literal of the source is given
  line by line; the documents are the bytes written to the files, so the dash of the
  header comments is its three bytes in UTF-8.
\<close>

definition text_lines :: "string list \<Rightarrow> string" where
  "text_lines ls = join [CHR 0x0A] ls"

definition emDash :: string where
  "emDash = [CHR 0xE2, CHR 0x80, CHR 0x94]"

definition headerSection :: string where
  "headerSection = text_lines
     [''; Auto-generated by tools/generate-highlights.ts'',
      ''; Source: vscode-wolfram (https://github.com/WolframResearch/vscode-wolfram)'',
      ''; Do not edit manually '' @ emDash @ '' run: npm run generate'']"

definition commentsSection :: string where
  "commentsSection = text_lines [''; Comments'', ''(comment) @comment'']"

definition stringsSection :: string where
  "stringsSection = text_lines [''; Strings'', ''(string) @string'']"

definition numbersSection :: string where
  "numbersSection = text_lines [''; Numbers'', ''(integer) @number'', ''(real) @number'']"

definition symbolFallbackRule :: string where
  "symbolFallbackRule = ''(symbol) @variable''"

definition symbolsSection :: string where
  "symbolsSection = text_lines
     [''; Symbols (generic fallback '' @ emDash @ '' must come before specific matches)'',
      symbolFallbackRule]"

definition callsSection :: string where
  "callsSection = text_lines [''; Function calls'', ''(call head: (symbol) @function)'']"

definition systemVariablesSection :: string where
  \<open>systemVariablesSection = text_lines
     [''; System variables starting with $'',
      ''((symbol) @constant.builtin'',
      ''  (#match? @constant.builtin "^'' @ [CHR 0x5C, CHR 0x5C] @ ''$"))'']\<close>

text \<open>
  One pass of the loop over the entries of \<open>SCOPE_MAP\<close>: the sections pushed for the
  entry, none or one.
\<close>

definition scopeSection ::
  "(string \<times> string list) list \<Rightarrow> string \<times> string option \<Rightarrow> string list" where
  "scopeSection symbolsByScope entry =
     (case entry of (scope, capture) \<Rightarrow>
        (case capture of
           None \<Rightarrow> []
         | Some capture \<Rightarrow>
             (if capture = [] then []
              else
                (case map_of symbolsByScope scope of
                   None \<Rightarrow> []
                 | Some names \<Rightarrow>
                     (if length names = 0 then []
                      else
                        (let scopeLabel = replaceFirst ''.wolfram'' [] scope
                         in [''; '' @ scopeLabel @ '' (from vscode-wolfram)'' @ [CHR 0x0A]
                             @ generateMatchBlocks capture names ''symbol'' 4000]))))))"

definition scopeSections :: "(string \<times> string list) list \<Rightarrow> string list" where
  "scopeSections symbolsByScope = concat (map (scopeSection symbolsByScope) SCOPE_MAP)"

definition assignmentSection :: string where
  \<open>assignmentSection = text_lines
     [''; Assignment operators'',
      ''"=" @keyword.operator'',
      ''":=" @keyword.operator'',
      ''"^=" @keyword.operator'',
      ''"^:=" @keyword.operator'',
      ''"+=" @keyword.operator'',
      ''"-=" @keyword.operator'',
      ''"*=" @keyword.operator'',
      ''"/=" @keyword.operator'',
      ''"//=" @keyword.operator'']\<close>

definition ruleSection :: string where
  \<open>ruleSection = text_lines
     [''; Rule operators'',
      ''"->" @operator'',
      ''":>" @operator'',
      ''"<->" @operator'',
      ''"|->" @operator'']\<close>

definition comparisonSection :: string where
  \<open>comparisonSection = text_lines
     [''; Comparison operators'',
      ''"==" @operator'',
      ''"!=" @operator'',
      ''"===" @operator'',
      ''"=!=" @operator'',
      ''"<" @operator'',
      ''"<=" @operator'',
      ''">" @operator'',
      ''">=" @operator'']\<close>

definition logicalSection :: string where
  \<open>logicalSection = text_lines
     [''; Logical operators'',
      ''"&&" @operator'',
      ''"||" @operator'',
      ''"!" @operator'']\<close>

definition arithmeticSection :: string where
  \<open>arithmeticSection = text_lines
     [''; Arithmetic operators'',
      ''"+" @operator'',
      ''"-" @operator'',
      ''"*" @operator'',
      ''"/" @operator'',
      ''"^" @operator'',
      ''"." @operator'',
      ''"**" @operator'']\<close>

definition applicationSection :: string where
  \<open>applicationSection = text_lines
     [''; Application operators'',
      ''"@" @operator'',
      ''"@@" @operator'',
      ''"@@@" @operator'',
      ''"/@" @operator'',
      ''"//@" @operator'',
      ''"//" @operator'',
      ''"~~" @operator'']\<close>

definition otherSection :: string where
  \<open>otherSection = text_lines
     [''; Other operators'',
      ''"&" @operator'',
      ''"/;" @operator'',
      ''"/." @operator'',
      ''"//." @operator'',
      ''".." @operator'',
      ''"..." @operator'',
      ''"'' @ [CHR 0x27] @ ''" @operator'',
      ''"!!" @operator'',
      ''"++" @operator'',
      ''"--" @operator'',
      ''"<>" @operator'',
      ''"/*" @operator'',
      ''"@*" @operator'',
      ''"?" @operator'']\<close>

definition delimitersSection :: string where
  \<open>delimitersSection = text_lines
     [''; Delimiters'',
      ''"(" @punctuation.bracket'',
      ''")" @punctuation.bracket'',
      ''"[" @punctuation.bracket'',
      ''"]" @punctuation.bracket'',
      ''"{" @punctuation.bracket'',
      ''"}" @punctuation.bracket'',
      ''"<|" @punctuation.bracket'',
      ''"|>" @punctuation.bracket'']\<close>

definition separatorsSection :: string where
  \<open>separatorsSection = text_lines
     [''; Separators'',
      ''"," @punctuation.delimiter'',
      ''";" @punctuation.delimiter'']\<close>

definition sections :: "(string \<times> string list) list \<Rightarrow> string list" where
  "sections symbolsByScope =
     [headerSection, commentsSection, stringsSection, numbersSection, symbolsSection,
      callsSection, systemVariablesSection]
     @ scopeSections symbolsByScope
     @ [assignmentSection, ruleSection, comparisonSection, logicalSection,
        arithmeticSection, applicationSection, otherSection, delimitersSection,
        separatorsSection]"

definition highlights :: "TmGrammar \<Rightarrow> string" where
  "highlights grammar =
     join [CHR 0x0A, CHR 0x0A] (sections (extractByScope grammar)) @ [CHR 0x0A]"

definition brackets :: string where
  \<open>brackets = text_lines
     [''; Auto-generated by tools/generate-highlights.ts'',
      ''("(" @open ")" @close)'',
      ''("["  @open "]"  @close)'',
      ''("{"  @open "}"  @close)'',
      ''("<|" @open "|>" @close)'',
      []]\<close>

text \<open>
  The paths, relative to the root of the repository. The files are a map from paths to
  contents. \<open>JSON.parse\<close> and the typing of its result as a grammar are a parameter of
  \<open>main\<close>: \<open>None\<close> when the text is not a grammar description (the run then ends with an
  exception). The lines printed to the console are not modelled.
\<close>

definition TM_GRAMMAR_PATH :: string where
  "TM_GRAMMAR_PATH = ''node_modules/vscode-wolfram/syntaxes/wolfram.tmLanguage.json''"

definition HIGHLIGHTS_OUT :: string where
  "HIGHLIGHTS_OUT = ''languages/wolfram/highlights.scm''"

definition BRACKETS_OUT :: string where
  "BRACKETS_OUT = ''languages/wolfram/brackets.scm''"

datatype error = FileNotFound | NotAGrammar

definition main ::
  "(string \<Rightarrow> TmGrammar option) \<Rightarrow> (string \<rightharpoonup> string) \<Rightarrow> error + (string \<rightharpoonup> string)" where
  "main JSON_parse files =
     (case files TM_GRAMMAR_PATH of
        None \<Rightarrow> Inl FileNotFound
      | Some text \<Rightarrow>
          (case JSON_parse text of
             None \<Rightarrow> Inl NotAGrammar
           | Some grammar \<Rightarrow>
               Inr (files(HIGHLIGHTS_OUT \<mapsto> highlights grammar, BRACKETS_OUT \<mapsto> brackets))))"

section \<open>Properties of the scanner\<close>

subsection \<open>Reference notions\<close>

text \<open>
  The matching close of a comment, following the words of the specification: read after
  an opening \<open>(*\<close>, with \<open>d\<close> nested comments open inside it, a two-character \<open>(*\<close>
  opens one more, a two-character \<open>*)\<close> closes the innermost one, and every other
  character is content. The result is the number of characters up to and including the
  \<open>*)\<close> that closes the outer comment.
\<close>

fun spec_matching_close :: "nat \<Rightarrow> string \<Rightarrow> nat option" where
  "spec_matching_close d [] = None"
| "spec_matching_close d [c] = None"
| "spec_matching_close d (c # c' # cs) =
     (if c = CHR ''('' \<and> c' = CHR ''*'' then
        map_option (\<lambda>n. n + 2) (spec_matching_close (Suc d) cs)
      else if c = CHR ''*'' \<and> c' = CHR '')'' then
        (if d = 0 then Some 2
         else map_option (\<lambda>n. n + 2) (spec_matching_close (d - 1) cs))
      else map_option Suc (spec_matching_close d (c' # cs)))"

text \<open>
  The configuration at the head of the loop of \<open>scan_comment\<close> after \<open>n\<close> complete
  iterations, when the loop runs that long.
\<close>

fun scan_comment_after :: "nat \<Rightarrow> int \<Rightarrow> TSLexer \<Rightarrow> (int \<times> TSLexer) option" where
  "scan_comment_after 0 depth lexer = Some (depth, lexer)"
| "scan_comment_after (Suc n) depth lexer =
     (if eof lexer then None
      else (case scan_comment_body depth lexer of
              Return r lexer' \<Rightarrow> None
            | Continue depth' lexer' \<Rightarrow> scan_comment_after n depth' lexer'))"

subsection \<open>The loop\<close>

lemma scan_comment_body_depth:
  "0 < depth \<Longrightarrow> scan_comment_body depth lexer = Continue d lexer' \<Longrightarrow> 0 < d"
  by (auto simp: scan_comment_body_def Let_def split: if_splits)

lemma scan_comment_body_fields:
  "scan_comment_body depth lexer = Continue d lexer' \<Longrightarrow>
     result_symbol lexer' = result_symbol lexer \<and> token_end lexer' = token_end lexer
     \<and> token_start lexer' = token_start lexer"
  by (cases "unread lexer")
     (auto simp: scan_comment_body_def advance_def Let_def split: if_splits)

lemma scan_comment_after_loop:
  "scan_comment_after n depth lexer = Some (d, lexer') \<Longrightarrow>
     scan_comment_loop depth lexer = scan_comment_loop d lexer'"
proof (induction n arbitrary: depth lexer)
  case 0
  then show ?case by simp
next
  case (Suc n)
  then show ?case
    by (subst scan_comment_loop.simps) (auto split: if_splits iteration.splits)
qed

lemma scan_comment_after_inv:
  "scan_comment_after n depth lexer = Some (d, lexer') \<Longrightarrow> 0 < depth \<Longrightarrow>
     0 < d \<and> result_symbol lexer' = result_symbol lexer \<and> token_end lexer' = token_end lexer
     \<and> token_start lexer' = token_start lexer"
proof (induction n arbitrary: depth lexer)
  case 0
  then show ?case by simp
next
  case (Suc n)
  from Suc.prems obtain d1 l1 where
    b: "scan_comment_body depth lexer = Continue d1 l1" and
    r: "scan_comment_after n d1 l1 = Some (d, lexer')"
    by (auto split: if_splits iteration.splits)
  from b Suc.prems(2) have "0 < d1" by (rule scan_comment_body_depth[rotated])
  with Suc.IH[OF r] scan_comment_body_fields[OF b] show ?case by simp
qed

lemma scan_after_opening:
  "tree_sitter_wolfram_external_scanner_scan (lexer_at (CHR ''('' # CHR ''*'' # rest)) vs =
     scan_comment \<lparr>unread = rest, cursor = 2, token_start = 0, token_end = None,
                    result_symbol = None\<rparr>"
  by (simp add: tree_sitter_wolfram_external_scanner_scan_def lexer_at_def lookahead_def
      advance_def iswspace_def skip_whitespace.simps numeral_2_eq_2)

lemma skip_whitespace_run:
  "\<forall>c\<in>set ws. iswspace c \<Longrightarrow> \<not> iswspace (case rest of [] \<Rightarrow> CHR 0x00 | c # _ \<Rightarrow> c) \<Longrightarrow>
   skip_whitespace \<lparr>unread = ws @ rest, cursor = k, token_start = t, token_end = e,
                    result_symbol = r\<rparr> =
     \<lparr>unread = rest, cursor = k + length ws, token_start = (if ws = [] then t else k + length ws),
      token_end = e, result_symbol = r\<rparr>"
proof (induction ws arbitrary: k t)
  case Nil
  then show ?case by (subst skip_whitespace.simps) (simp add: lookahead_def)
next
  case (Cons a ws)
  then show ?case
    by (subst skip_whitespace.simps) (auto simp add: lookahead_def advance_def)
qed

subsection \<open>Nested comments\<close>

text \<open>
  The example of the specification: \<open>(* outer (* inner *) still outer *)\<close>, 35 characters,
  is one comment token covering the whole input.
\<close>

lemma scan_nested_example:
  "tree_sitter_wolfram_external_scanner_scan
     (lexer_at ''(* outer (* inner *) still outer *)'') vs =
     (True, \<lparr>unread = [], cursor = 35, token_start = 0, token_end = Some 35,
             result_symbol = Some COMMENT\<rparr>)"
  by (simp add: tree_sitter_wolfram_external_scanner_scan_def lexer_at_def scan_comment_def
      scan_comment_body_def lookahead_def advance_def mark_end_def eof_def iswspace_def
      scan_comment_loop.simps skip_whitespace.simps)

text \<open>
  Where the scanner and the reference notion agree: on every text in which no \<open>(*\<close> is
  directly followed by \<open>)\<close>, the token ends at the matching close.
\<close>

fun shares_star :: "string \<Rightarrow> bool" where
  "shares_star (a # b # c # r) =
     ((a = CHR ''('' \<and> b = CHR ''*'' \<and> c = CHR '')'') \<or> shares_star (b # c # r))"
| "shares_star _ = False"

lemma shares_star_Cons: "shares_star s \<Longrightarrow> shares_star (a # s)"
  by (cases s rule: shares_star.cases) auto

lemma loop_step:
  "\<not> eof lexer \<Longrightarrow> scan_comment_body depth lexer = Continue depth' lexer' \<Longrightarrow>
     scan_comment_loop depth lexer = scan_comment_loop depth' lexer'"
  by (subst scan_comment_loop.simps) simp

lemma loop_return:
  "\<not> eof lexer \<Longrightarrow> scan_comment_body depth lexer = Return r lexer' \<Longrightarrow>
     scan_comment_loop depth lexer = (r, lexer')"
  by (subst scan_comment_loop.simps) simp

lemma scan_comment_loop_agrees:
  "\<not> shares_star r \<Longrightarrow> spec_matching_close d r = Some n \<Longrightarrow>
   scan_comment_loop (int d + 1)
     \<lparr>unread = r, cursor = k, token_start = ts, token_end = e, result_symbol = rs\<rparr> =
     (True, \<lparr>unread = drop n r, cursor = k + n, token_start = ts, token_end = Some (k + n),
             result_symbol = Some COMMENT\<rparr>)"
proof (induction d r arbitrary: k n rule: spec_matching_close.induct)
  case (1 d)
  then show ?case by simp
next
  case (2 d c)
  then show ?case by simp
next
  case (3 d c c' cs)
  let ?lx = "\<lambda>u j. \<lparr>unread = u, cursor = j, token_start = ts, token_end = e, result_symbol = rs\<rparr>"
  consider (opens) "c = CHR ''('' \<and> c' = CHR ''*''"
    | (closes) "c = CHR ''*'' \<and> c' = CHR '')''"
    | (other) "\<not> (c = CHR ''('' \<and> c' = CHR ''*'')" "\<not> (c = CHR ''*'' \<and> c' = CHR '')'')"
    by blast
  then show ?case
  proof cases
    case opens
    with "3.prems" obtain n' where n: "n = n' + 2" "spec_matching_close (Suc d) cs = Some n'"
      by auto
    from opens "3.prems"(1) have h: "\<not> shares_star cs" "case cs of [] \<Rightarrow> True | x # _ \<Rightarrow> x \<noteq> CHR '')''"
      by (auto split: list.splits dest: shares_star_Cons)
    have "scan_comment_loop (int d + 1) (?lx (c # c' # cs) k) =
            scan_comment_loop (int d + 2) (?lx (c' # cs) (k + 1))"
      using opens by (intro loop_step) (simp_all add: eof_def scan_comment_body_def lookahead_def advance_def)
    also have "\<dots> = scan_comment_loop (int d + 2) (?lx cs (k + 2))"
      using opens h(2)
      by (intro loop_step)
         (auto simp: eof_def scan_comment_body_def lookahead_def advance_def split: list.splits)
    also have "\<dots> = (True, \<lparr>unread = drop n' cs, cursor = k + 2 + n', token_start = ts,
                             token_end = Some (k + 2 + n'), result_symbol = Some COMMENT\<rparr>)"
      using "3.IH"(1)[OF _ h(1) n(2), of "k + 2"] opens by (simp add: add.commute)
    finally show ?thesis using n by (simp add: add.commute add.left_commute)
  next
    case closes
    show ?thesis
    proof (cases "d = 0")
      case True
      with closes "3.prems" have n: "n = 2" by simp
      show ?thesis unfolding n using closes True
        by (intro trans[OF loop_return])
           (simp_all add: eof_def scan_comment_body_def lookahead_def advance_def mark_end_def)
    next
      case False
      with closes "3.prems" obtain n' where
        n: "n = n' + 2" "spec_matching_close (d - 1) cs = Some n'" by auto
      from "3.prems"(1) have h: "\<not> shares_star cs"
        by (auto dest: shares_star_Cons)
      have "scan_comment_loop (int d + 1) (?lx (c # c' # cs) k) =
              scan_comment_loop (int d) (?lx (c' # cs) (k + 1))"
        using closes False
        by (intro loop_step) (simp_all add: eof_def scan_comment_body_def lookahead_def advance_def)
      also have "\<dots> = scan_comment_loop (int d) (?lx cs (k + 2))"
        using closes
        by (intro loop_step) (simp_all add: eof_def scan_comment_body_def lookahead_def advance_def)
      also have "\<dots> = (True, \<lparr>unread = drop n' cs, cursor = k + 2 + n', token_start = ts,
                             token_end = Some (k + 2 + n'), result_symbol = Some COMMENT\<rparr>)"
        using "3.IH"(2)[OF _ _ False h n(2), of "k + 2"] closes False
        by (simp add: of_nat_diff)
      finally show ?thesis using n by (simp add: add.commute add.left_commute)
    qed
  next
    case other
    with "3.prems" obtain n' where
      n: "n = Suc n'" "spec_matching_close d (c' # cs) = Some n'" by auto
    from "3.prems"(1) have h: "\<not> shares_star (c' # cs)"
      by (auto dest: shares_star_Cons)
    have "scan_comment_loop (int d + 1) (?lx (c # c' # cs) k) =
            scan_comment_loop (int d + 1) (?lx (c' # cs) (k + 1))"
      using other
      by (intro loop_step)
         (auto simp: eof_def scan_comment_body_def lookahead_def advance_def)
    also have "\<dots> = (True, \<lparr>unread = drop n' (c' # cs), cursor = k + 1 + n', token_start = ts,
                             token_end = Some (k + 1 + n'), result_symbol = Some COMMENT\<rparr>)"
      using "3.IH"(3)[OF _ _ h n(2), of "k + 1"] other by simp
    finally show ?thesis using n by simp
  qed
qed

lemma scan_agrees_without_shared_star:
  assumes "\<not> shares_star rest" and "spec_matching_close 0 rest = Some n"
  shows "tree_sitter_wolfram_external_scanner_scan (lexer_at (''(*'' @ rest)) vs =
           (True, \<lparr>unread = drop n rest, cursor = n + 2, token_start = 0,
                   token_end = Some (n + 2), result_symbol = Some COMMENT\<rparr>)"
  using scan_comment_loop_agrees[OF assms, of 2 0 None None]
  by (simp add: scan_after_opening scan_comment_def add.commute)

text \<open>
  Claim C1: an input that begins with \<open>(*\<close> and holds the matching \<open>*)\<close>, with properly
  nested pairs inside, is scanned as one COMMENT token that ends one past the matching
  \<open>)\<close>. The scanner does not do so on \<open>(* (*) *) *)\<close>: the matching close of the opening
  \<open>(*\<close> is the last \<open>*)\<close> (10 characters after the opening, the token would end at 12),
  and the scanner ends the token at 9, after the first \<open>*)\<close> that stands alone.
\<close>

theorem scan_shared_star_ends_early:
  "spec_matching_close 0 '' (*) *) *)'' = Some 10
   \<and> tree_sitter_wolfram_external_scanner_scan (lexer_at ''(* (*) *) *)'') vs =
       (True, \<lparr>unread = '' *)'', cursor = 9, token_start = 0, token_end = Some 9,
               result_symbol = Some COMMENT\<rparr>)"
  by (simp add: tree_sitter_wolfram_external_scanner_scan_def lexer_at_def scan_comment_def
      scan_comment_body_def lookahead_def advance_def mark_end_def eof_def iswspace_def
      scan_comment_loop.simps skip_whitespace.simps)

text \<open>
  Claim C2: inside a comment, on \<open>(\<close> followed by \<open>*\<close> the scanner consumes both
  characters and adds one to the depth, so that the \<open>*\<close> cannot be read again as the
  start of a closing \<open>*)\<close>. The loop consumes the \<open>(\<close> only: on \<open>(*) *) *)\<close> at depth 1
  one iteration raises the depth to 2 and leaves \<open>*\<close> as the lookahead, and the next
  iteration reads that \<open>*\<close> before \<open>)\<close> as a close and lowers the depth to 1.
\<close>

theorem nested_open_leaves_star:
  "scan_comment_body 1 \<lparr>unread = ''(*) *) *)'', cursor = 3, token_start = 0,
                        token_end = None, result_symbol = None\<rparr> =
     Continue 2 \<lparr>unread = ''*) *) *)'', cursor = 4, token_start = 0,
                 token_end = None, result_symbol = None\<rparr>
   \<and> scan_comment_body 2 \<lparr>unread = ''*) *) *)'', cursor = 4, token_start = 0,
                          token_end = None, result_symbol = None\<rparr> =
     Continue 1 \<lparr>unread = '') *) *)'', cursor = 5, token_start = 0,
                 token_end = None, result_symbol = None\<rparr>"
  by (simp add: scan_comment_body_def lookahead_def advance_def)

subsection \<open>Unterminated comments\<close>

text \<open>
  Whenever the loop of \<open>scan_comment\<close> comes to the end of the input, the depth is still
  greater than zero there, the scan returns failure, and no token is recorded (neither a
  symbol nor an end). The input \<open>(* unterminated\<close> of the specification is such an input.
\<close>

lemma scan_fails_at_end_of_input:
  assumes "scan_comment_after n 1 \<lparr>unread = rest, cursor = 2, token_start = 0,
             token_end = None, result_symbol = None\<rparr> = Some (depth, lexer')"
    and "eof lexer'"
  shows "0 < depth
    \<and> tree_sitter_wolfram_external_scanner_scan (lexer_at (''(*'' @ rest)) vs = (False, lexer')
    \<and> result_symbol lexer' = None \<and> token_end lexer' = None"
  using scan_comment_after_inv[OF assms(1)] scan_comment_after_loop[OF assms(1)] assms(2)
  by (simp add: scan_after_opening scan_comment_def scan_comment_loop.simps[of depth lexer'])

lemma scan_unterminated_example:
  "tree_sitter_wolfram_external_scanner_scan (lexer_at ''(* unterminated'') vs =
     (False, \<lparr>unread = [], cursor = 15, token_start = 0, token_end = None,
              result_symbol = None\<rparr>)"
  using scan_fails_at_end_of_input[of 13 "'' unterminated''" 1
          "\<lparr>unread = [], cursor = 15, token_start = 0, token_end = None,
            result_symbol = None\<rparr>" vs]
  by (simp add: eval_nat_numeral scan_comment_body_def lookahead_def advance_def eof_def)

text \<open>
  On a text in which no \<open>(*\<close> is directly followed by \<open>)\<close> and the opening \<open>(*\<close> has
  no matching close, the scan reads to the end of the input and returns failure.
\<close>

lemma scan_comment_loop_fails:
  "\<not> shares_star r \<Longrightarrow> spec_matching_close d r = None \<Longrightarrow>
   scan_comment_loop (int d + 1)
     \<lparr>unread = r, cursor = k, token_start = ts, token_end = e, result_symbol = rs\<rparr> =
     (False, \<lparr>unread = [], cursor = k + length r, token_start = ts, token_end = e,
              result_symbol = rs\<rparr>)"
proof (induction d r arbitrary: k rule: spec_matching_close.induct)
  case (1 d)
  then show ?case by (subst scan_comment_loop.simps) (simp add: eof_def)
next
  case (2 d c)
  let ?lx = "\<lambda>u j. \<lparr>unread = u, cursor = j, token_start = ts, token_end = e, result_symbol = rs\<rparr>"
  have "scan_comment_loop (int d + 1) (?lx [c] k) = scan_comment_loop (int d + 1) (?lx [] (k + 1))"
    by (intro loop_step)
       (auto simp: eof_def scan_comment_body_def lookahead_def advance_def)
  also have "\<dots> = (False, ?lx [] (k + 1))"
    by (subst scan_comment_loop.simps) (simp add: eof_def)
  finally show ?case by simp
next
  case (3 d c c' cs)
  let ?lx = "\<lambda>u j. \<lparr>unread = u, cursor = j, token_start = ts, token_end = e, result_symbol = rs\<rparr>"
  consider (opens) "c = CHR ''('' \<and> c' = CHR ''*''"
    | (closes) "c = CHR ''*'' \<and> c' = CHR '')''"
    | (other) "\<not> (c = CHR ''('' \<and> c' = CHR ''*'')" "\<not> (c = CHR ''*'' \<and> c' = CHR '')'')"
    by blast
  then show ?case
  proof cases
    case opens
    with "3.prems" have n: "spec_matching_close (Suc d) cs = None" by auto
    from opens "3.prems"(1) have h: "\<not> shares_star cs"
      "case cs of [] \<Rightarrow> True | x # _ \<Rightarrow> x \<noteq> CHR '')''"
      by (auto split: list.splits dest: shares_star_Cons)
    have "scan_comment_loop (int d + 1) (?lx (c # c' # cs) k) =
            scan_comment_loop (int d + 2) (?lx (c' # cs) (k + 1))"
      using opens
      by (intro loop_step) (simp_all add: eof_def scan_comment_body_def lookahead_def advance_def)
    also have "\<dots> = scan_comment_loop (int d + 2) (?lx cs (k + 2))"
      using opens h(2)
      by (intro loop_step)
         (auto simp: eof_def scan_comment_body_def lookahead_def advance_def split: list.splits)
    also have "\<dots> = (False, ?lx [] (k + 2 + length cs))"
      using "3.IH"(1)[OF _ h(1) n, of "k + 2"] opens by (simp add: add.commute)
    finally show ?thesis by simp
  next
    case closes
    with "3.prems" have d: "d \<noteq> 0" and n: "spec_matching_close (d - 1) cs = None"
      by (auto split: if_splits)
    from "3.prems"(1) have h: "\<not> shares_star cs"
      by (auto dest: shares_star_Cons)
    have "scan_comment_loop (int d + 1) (?lx (c # c' # cs) k) =
            scan_comment_loop (int d) (?lx (c' # cs) (k + 1))"
      using closes d
      by (intro loop_step) (simp_all add: eof_def scan_comment_body_def lookahead_def advance_def)
    also have "\<dots> = scan_comment_loop (int d) (?lx cs (k + 2))"
      using closes
      by (intro loop_step) (simp_all add: eof_def scan_comment_body_def lookahead_def advance_def)
    also have "\<dots> = (False, ?lx [] (k + 2 + length cs))"
      using "3.IH"(2)[OF _ _ d h n, of "k + 2"] closes d
      by (simp add: of_nat_diff)
    finally show ?thesis by simp
  next
    case other
    with "3.prems" have n: "spec_matching_close d (c' # cs) = None" by auto
    from "3.prems"(1) have h: "\<not> shares_star (c' # cs)"
      by (auto dest: shares_star_Cons)
    have "scan_comment_loop (int d + 1) (?lx (c # c' # cs) k) =
            scan_comment_loop (int d + 1) (?lx (c' # cs) (k + 1))"
      using other
      by (intro loop_step)
         (auto simp: eof_def scan_comment_body_def lookahead_def advance_def)
    also have "\<dots> = (False, ?lx [] (k + 1 + length (c' # cs)))"
      using "3.IH"(3)[OF _ _ h n, of "k + 1"] other by simp
    finally show ?thesis by simp
  qed
qed

lemma scan_fails_without_shared_star:
  assumes "\<not> shares_star rest" and "spec_matching_close 0 rest = None"
  shows "tree_sitter_wolfram_external_scanner_scan (lexer_at (''(*'' @ rest)) vs =
           (False, \<lparr>unread = [], cursor = length rest + 2, token_start = 0,
                    token_end = None, result_symbol = None\<rparr>)"
  using scan_comment_loop_fails[OF assms, of 2 0 None None]
  by (simp add: scan_after_opening scan_comment_def add.commute)

text \<open>
  Claim C3: an input in which a comment is opened by \<open>(*\<close> and the end of the input comes
  while the nesting depth is still greater than zero gives failure and no token. In
  \<open>(* (*) *)\<close> the nested comment is closed by the only \<open>*)\<close> and the outer comment is
  still open at the end of the input (it has no matching close), yet the scanner returns
  a COMMENT token that ends at 9: the \<open>*\<close> of the nested \<open>(*\<close> is read again with the
  \<open>)\<close> after it as a close.
\<close>

theorem unterminated_nested_scans_as_comment:
  "spec_matching_close 0 '' (*) *)'' = None
   \<and> tree_sitter_wolfram_external_scanner_scan (lexer_at ''(* (*) *)'') vs =
       (True, \<lparr>unread = [], cursor = 9, token_start = 0, token_end = Some 9,
               result_symbol = Some COMMENT\<rparr>)"
  by (simp add: tree_sitter_wolfram_external_scanner_scan_def lexer_at_def scan_comment_def
      scan_comment_body_def lookahead_def advance_def mark_end_def eof_def iswspace_def
      scan_comment_loop.simps skip_whitespace.simps)

subsection \<open>An opening parenthesis that starts no comment\<close>

text \<open>
  Claim C9: after leading white space, on \<open>(\<close> not followed by \<open>*\<close> the scan returns
  failure with no token, and the cursor stands one past the \<open>(\<close>, which was consumed as
  part of a token (the token start stays before it); when the first character after the
  white space is not \<open>(\<close>, the scan returns failure with the cursor at that character,
  only the white space consumed.
\<close>

theorem paren_without_star_consumed:
  assumes "\<forall>c\<in>set ws. iswspace c"
  shows "((case rest of [] \<Rightarrow> True | c # _ \<Rightarrow> c \<noteq> CHR ''*'') \<longrightarrow>
           tree_sitter_wolfram_external_scanner_scan (lexer_at (ws @ CHR ''('' # rest)) vs =
             (False, \<lparr>unread = rest, cursor = length ws + 1, token_start = length ws,
                      token_end = None, result_symbol = None\<rparr>))
       \<and> ((case rest of [] \<Rightarrow> True | c # _ \<Rightarrow> c \<noteq> CHR ''('' \<and> \<not> iswspace c) \<longrightarrow>
           tree_sitter_wolfram_external_scanner_scan (lexer_at (ws @ rest)) vs =
             (False, \<lparr>unread = rest, cursor = length ws, token_start = length ws,
                      token_end = None, result_symbol = None\<rparr>))"
proof (intro conjI impI)
  assume r: "case rest of [] \<Rightarrow> True | c # _ \<Rightarrow> c \<noteq> CHR ''*''"
  have "skip_whitespace (lexer_at (ws @ CHR ''('' # rest)) =
          \<lparr>unread = CHR ''('' # rest, cursor = length ws, token_start = length ws,
           token_end = None, result_symbol = None\<rparr>"
    unfolding lexer_at_def using assms
    by (subst skip_whitespace_run) (auto simp: iswspace_def)
  with r show "tree_sitter_wolfram_external_scanner_scan (lexer_at (ws @ CHR ''('' # rest)) vs =
             (False, \<lparr>unread = rest, cursor = length ws + 1, token_start = length ws,
                      token_end = None, result_symbol = None\<rparr>)"
    by (auto simp: tree_sitter_wolfram_external_scanner_scan_def lookahead_def advance_def
             split: list.splits)
next
  assume r: "case rest of [] \<Rightarrow> True | c # _ \<Rightarrow> c \<noteq> CHR ''('' \<and> \<not> iswspace c"
  then have nw: "\<not> iswspace (case rest of [] \<Rightarrow> CHR 0x00 | c # _ \<Rightarrow> c)"
    by (auto simp: iswspace_def split: list.splits)
  have "skip_whitespace (lexer_at (ws @ rest)) =
          \<lparr>unread = rest, cursor = length ws, token_start = length ws,
           token_end = None, result_symbol = None\<rparr>"
    unfolding lexer_at_def using assms nw
    by (subst skip_whitespace_run) auto
  with r show "tree_sitter_wolfram_external_scanner_scan (lexer_at (ws @ rest)) vs =
             (False, \<lparr>unread = rest, cursor = length ws, token_start = length ws,
                      token_end = None, result_symbol = None\<rparr>)"
    by (auto simp: tree_sitter_wolfram_external_scanner_scan_def lookahead_def advance_def
             split: list.splits)
qed

theorem paren_without_star_consumed_witness:
  "tree_sitter_wolfram_external_scanner_scan (lexer_at ''  (x'') [] =
     (False, \<lparr>unread = ''x'', cursor = 3, token_start = 2, token_end = None,
              result_symbol = None\<rparr>)
   \<and> tree_sitter_wolfram_external_scanner_scan (lexer_at ''  x('') [] =
     (False, \<lparr>unread = ''x('', cursor = 2, token_start = 2, token_end = None,
              result_symbol = None\<rparr>)"
  using paren_without_star_consumed[of "''  ''" "''x''" "[]"]
        paren_without_star_consumed[of "''  ''" "''x(''" "[]"]
  by (simp add: iswspace_def)

section \<open>Properties of the generator\<close>

subsection \<open>Trie expansion\<close>

text \<open>
  Claim C4: expanding \<open>A(?:bs|dd|rg)\<close> yields exactly Abs, Add, Arg, and expanding
  \<open>X(?:ML(?:Element|Object)|YZColor|nor|or)\<close> yields exactly XMLElement, XMLObject,
  XYZColor, Xnor, Xor: each name once, nothing else.
\<close>

theorem expandTrie_examples:
  "expandTrie ''A(?:bs|dd|rg)'' = [''Abs'', ''Add'', ''Arg'']
   \<and> expandTrie ''X(?:ML(?:Element|Object)|YZColor|nor|or)'' =
       [''XMLElement'', ''XMLObject'', ''XYZColor'', ''Xnor'', ''Xor'']"
  by (simp add: expandTrie_def doExpand.simps splitTopLevel_def substring_def startsWith_def)

subsection \<open>The namespace prefix\<close>

lemma stripSystemPrefix_backtick: "stripSystemPrefix (''System`'' @ p) = p"
  by (simp add: stripSystemPrefix_def startsWith_def)

text \<open>
  With the backtick written as it is, the prefix is removed whole: the names of
  \<open>System`p\<close> are those of \<open>p\<close>, for every \<open>p\<close> that does not itself begin with the prefix.
\<close>

lemma extractSymbolNames_unescaped_prefix:
  "stripSystemPrefix p = p \<Longrightarrow> extractSymbolNames (''System`'' @ p) = extractSymbolNames p"
  unfolding extractSymbolNames_def stripSystemPrefix_backtick by simp

lemma extractSymbolNames_Abs_Add_Arg:
  "extractSymbolNames ''A(?:bs|dd|rg)'' = [''Abs'', ''Add'', ''Arg'']"
proof -
  have 1: "stripSystemPrefix ''A(?:bs|dd|rg)'' = ''A(?:bs|dd|rg)''"
    by (simp add: stripSystemPrefix_def startsWith_def)
  have 2: "stripLookahead ''A(?:bs|dd|rg)'' = ''A(?:bs|dd|rg)''"
    by (simp add: lookaheadAt_def startsWith_def)
  have 3: "unwrapOuterGroup ''A(?:bs|dd|rg)'' = ''A(?:bs|dd|rg)''"
    by (simp add: unwrapOuterGroup_def startsWith_def)
  have 4: "expandTrie ''A(?:bs|dd|rg)'' = [''Abs'', ''Add'', ''Arg'']"
    by (simp add: expandTrie_def doExpand.simps splitTopLevel_def substring_def startsWith_def)
  have 5: "filter validSymbolName [''Abs'', ''Add'', ''Arg''] = [''Abs'', ''Add'', ''Arg'']"
    by (simp add: validSymbolName_def nameStart_def nameChar_def)
  show ?thesis by (simp only: extractSymbolNames_def Let_def 1 2 3 4 5)
qed

lemma extractSymbolNames_escaped:
  "stripSystemPrefix (''System'' @ [CHR 0x5C, CHR 0x60] @ ''A(?:bs|dd|rg)'') = ''`A(?:bs|dd|rg)''
   \<and> extractSymbolNames (''System'' @ [CHR 0x5C, CHR 0x60] @ ''A(?:bs|dd|rg)'') = []"
proof -
  have 1: "stripSystemPrefix (''System'' @ [CHR 0x5C, CHR 0x60] @ ''A(?:bs|dd|rg)'')
             = ''`A(?:bs|dd|rg)''"
    by (simp add: stripSystemPrefix_def startsWith_def)
  have 2: "stripLookahead ''`A(?:bs|dd|rg)'' = ''`A(?:bs|dd|rg)''"
    by (simp add: lookaheadAt_def startsWith_def)
  have 3: "unwrapOuterGroup ''`A(?:bs|dd|rg)'' = ''`A(?:bs|dd|rg)''"
    by (simp add: unwrapOuterGroup_def startsWith_def)
  have 4: "expandTrie ''`A(?:bs|dd|rg)'' = [''`Abs'', ''`Add'', ''`Arg'']"
    by (simp add: expandTrie_def doExpand.simps splitTopLevel_def substring_def startsWith_def)
  have 5: "filter validSymbolName [''`Abs'', ''`Add'', ''`Arg''] = []"
    by (simp add: validSymbolName_def nameStart_def)
  show ?thesis by (simp only: extractSymbolNames_def Let_def 1 2 3 4 5 simp_thms)
qed

text \<open>
  Claim C5: a match expression that begins with \<open>System\<close> and a backtick, escaped by a
  backslash or not, loses the whole prefix, backtick included, and gives the names of the
  expression without the prefix. For the escaped form the generator removes \<open>System\<close>
  and the backslash only: from \<open>System\`A(?:bs|dd|rg)\<close> the backtick stays in front, every
  expanded name starts with it and is dropped by the filter, so no name is recovered,
  where \<open>A(?:bs|dd|rg)\<close> gives Abs, Add, Arg.
\<close>

theorem escaped_prefix_keeps_backtick:
  "stripSystemPrefix (''System'' @ [CHR 0x5C, CHR 0x60] @ ''A(?:bs|dd|rg)'') = ''`A(?:bs|dd|rg)''
   \<and> extractSymbolNames (''System'' @ [CHR 0x5C, CHR 0x60] @ ''A(?:bs|dd|rg)'') = []
   \<and> extractSymbolNames ''A(?:bs|dd|rg)'' = [''Abs'', ''Add'', ''Arg'']"
  using extractSymbolNames_escaped extractSymbolNames_Abs_Add_Arg by simp

subsection \<open>Match blocks\<close>

lemma newSet_fold:
  "set (fold (\<lambda>x seen. if x \<in> set seen then seen else seen @ [x]) xs acc) = set acc \<union> set xs
   \<and> (distinct acc \<longrightarrow>
        distinct (fold (\<lambda>x seen. if x \<in> set seen then seen else seen @ [x]) xs acc))"
  by (induction xs arbitrary: acc) auto

lemma set_newSet: "set (newSet xs) = set xs"
  by (simp add: newSet_def newSet_fold)

lemma distinct_newSet: "distinct (newSet xs)"
  using newSet_fold[of xs "[]"] by (simp add: newSet_def)

lemma batch_step_flush:
  "c + length x + 1 > m \<and> length b > 0 \<Longrightarrow>
     batch_step emit m x (ls, b, c) = (ls @ [emit b], [x], length x + 1)"
  by (simp add: batch_step_def)

lemma batch_step_keep:
  "\<not> (c + length x + 1 > m \<and> length b > 0) \<Longrightarrow>
     batch_step emit m x (ls, b, c) = (ls, b @ [x], c + length x + 1)"
  by (auto simp add: batch_step_def)

lemma batch_fold_emit:
  "fold (batch_step emit m) xs (map emit ls, b, c) =
     (case fold (batch_step (\<lambda>batch. batch) m) xs (ls, b, c) of
        (ls', b', c') \<Rightarrow> (map emit ls', b', c'))"
proof (induction xs arbitrary: ls b c)
  case Nil
  then show ?case by simp
next
  case (Cons x xs)
  show ?case
  proof (cases "c + length x + 1 > m \<and> length b > 0")
    case True
    have "fold (batch_step emit m) xs (map emit (ls @ [b]), [x], length x + 1) =
            (case fold (batch_step (\<lambda>batch. batch) m) xs (ls @ [b], [x], length x + 1) of
               (ls', b', c') \<Rightarrow> (map emit ls', b', c'))"
      by (rule Cons.IH)
    then show ?thesis by (simp add: batch_step_flush[OF True])
  next
    case False
    have "fold (batch_step emit m) xs (map emit ls, b @ [x], c + length x + 1) =
            (case fold (batch_step (\<lambda>batch. batch) m) xs (ls, b @ [x], c + length x + 1) of
               (ls', b', c') \<Rightarrow> (map emit ls', b', c'))"
      by (rule Cons.IH)
    then show ?thesis by (simp add: batch_step_keep[OF False])
  qed
qed

lemma batch_all_emit: "batch_all emit m xs = map emit (batch_all (\<lambda>batch. batch) m xs)"
  using batch_fold_emit[of emit m xs "[]" "[]" 0]
  by (auto simp: batch_all_def split: prod.splits)

lemma generateMatchBlocks_batches:
  "generateMatchBlocks capture names nodeType m =
     join [CHR 0x0A, CHR 0x0A]
       (map (\<lambda>batch. formatMatchBlock capture batch nodeType) (matchBatches m names))"
  by (simp add: generateMatchBlocks_def matchBatches_def batch_all_emit[symmetric])

definition weight :: "string list \<Rightarrow> nat" where
  "weight b = sum_list (map (\<lambda>n. length n + 1) b)"

definition fits :: "nat \<Rightarrow> string list \<Rightarrow> bool" where
  "fits m b = (b \<noteq> [] \<and> (weight b \<le> m \<or> length b = 1))"

lemma batch_fold_inv:
  assumes "fold (batch_step (\<lambda>batch. batch) m) xs (ls, b, c) = (ls', b', c')"
    and "c = weight b" and "\<forall>x \<in> set ls. fits m x" and "b = [] \<or> fits m b"
  shows "c' = weight b' \<and> (\<forall>x \<in> set ls'. fits m x) \<and> (b' = [] \<or> fits m b')
         \<and> concat ls' @ b' = concat ls @ b @ xs"
  using assms
proof (induction xs arbitrary: ls b c)
  case Nil
  then show ?case by auto
next
  case (Cons x xs)
  show ?case
  proof (cases "c + length x + 1 > m \<and> length b > 0")
    case True
    with Cons.prems(1) have
      f: "fold (batch_step (\<lambda>batch. batch) m) xs (ls @ [b], [x], length x + 1) = (ls', b', c')"
      by (simp add: batch_step_flush)
    have "c' = weight b' \<and> (\<forall>x \<in> set ls'. fits m x) \<and> (b' = [] \<or> fits m b')
         \<and> concat ls' @ b' = concat (ls @ [b]) @ [x] @ xs"
      using Cons.prems True by (intro Cons.IH[OF f]) (auto simp: weight_def fits_def)
    then show ?thesis by simp
  next
    case False
    with Cons.prems(1) have
      f: "fold (batch_step (\<lambda>batch. batch) m) xs (ls, b @ [x], c + length x + 1) = (ls', b', c')"
      by (simp add: batch_step_keep)
    have "c' = weight b' \<and> (\<forall>x \<in> set ls'. fits m x) \<and> (b' = [] \<or> fits m b')
         \<and> concat ls' @ b' = concat ls @ (b @ [x]) @ xs"
      using Cons.prems False by (intro Cons.IH[OF f]) (auto simp: weight_def fits_def)
    then show ?thesis by simp
  qed
qed

lemma batch_all_inv:
  "(\<forall>b \<in> set (batch_all (\<lambda>batch. batch) m xs). fits m b)
   \<and> concat (batch_all (\<lambda>batch. batch) m xs) = xs"
proof -
  obtain ls' b' c' where f: "fold (batch_step (\<lambda>batch. batch) m) xs ([], [], 0) = (ls', b', c')"
    by (cases "fold (batch_step (\<lambda>batch. batch) m) xs ([], [], 0)") auto
  from batch_fold_inv[OF f] have
    "(\<forall>x \<in> set ls'. fits m x) \<and> (b' = [] \<or> fits m b') \<and> concat ls' @ b' = xs"
    by (simp add: weight_def)
  with f show ?thesis by (auto simp: batch_all_def)
qed

lemma length_join_bar: "b \<noteq> [] \<Longrightarrow> length (join ''|'' b) + 1 = weight b"
  by (induction "''|''" b rule: join.induct) (auto simp: weight_def)

lemma fits_length:
  assumes "fits m b"
  shows "length (join ''|'' b) \<le> m \<or> (\<exists>n. b = [n] \<and> m < length n)"
proof (cases "weight b \<le> m")
  case True
  with assms length_join_bar[of b] show ?thesis by (simp add: fits_def)
next
  case False
  with assms obtain n where "b = [n]" by (cases b) (auto simp: fits_def)
  then show ?thesis by (cases "length n \<le> m") auto
qed

lemma sorted_wrt_concat_part:
  "sorted_wrt P (concat bs) \<Longrightarrow> b \<in> set bs \<Longrightarrow> sorted_wrt P b"
  by (induction bs) (auto simp: sorted_wrt_append)

text \<open>
  Claim C6, first as it is stated: no block's alternation text is longer than 4000
  characters. A name that is itself longer than 4000 characters is put in a block of its
  own, whose alternation text is the name: the loop closes a batch only when the batch
  is not empty.
\<close>

theorem long_name_block_exceeds_limit:
  "\<not> (\<forall>b \<in> set (matchBatches 4000 [replicate 4001 (CHR ''A'')]).
        length (join ''|'' b) \<le> 4000)"
  by (simp add: matchBatches_def newSet_def batch_all_def batch_step_def)

text \<open>
  Claim C6, amended: for every capture name, node type, limit and list of names, the text
  returned is the blocks of the batches joined by blank lines; in each batch the names are
  in strictly increasing lexicographic order (so unique); the alternation text of a batch
  is within the limit, unless the batch is a single name that is longer than the limit;
  and the batches together hold every name of the input exactly once.
\<close>

theorem match_blocks_invariants:
  "generateMatchBlocks capture names nodeType m =
     join [CHR 0x0A, CHR 0x0A]
       (map (\<lambda>batch. formatMatchBlock capture batch nodeType) (matchBatches m names))
   \<and> (\<forall>b \<in> set (matchBatches m names).
         sorted_wrt (<) b \<and> (length (join ''|'' b) \<le> m \<or> (\<exists>n. b = [n] \<and> m < length n)))
   \<and> distinct (concat (matchBatches m names))
   \<and> set (concat (matchBatches m names)) = set names"
proof -
  let ?xs = "sort (newSet names)"
  have c: "concat (matchBatches m names) = ?xs"
    and f: "\<forall>b \<in> set (matchBatches m names). fits m b"
    using batch_all_inv[of m ?xs] by (simp_all add: matchBatches_def)
  have d: "distinct ?xs" by (simp add: distinct_newSet)
  then have s: "sorted_wrt (<) ?xs" by (simp add: strict_sorted_iff)
  have "\<forall>b \<in> set (matchBatches m names). sorted_wrt (<) b"
    using s c sorted_wrt_concat_part by metis
  with f fits_length c d show ?thesis
    by (auto simp: generateMatchBlocks_batches set_newSet)
qed

theorem match_blocks_invariants_witness:
  "matchBatches 8 [''Xor'', ''Abs'', ''Add'', ''Abs'', ''Arg''] =
     [[''Abs'', ''Add''], [''Arg'', ''Xor'']]
   \<and> sorted_wrt (<) [''Abs'', ''Add''] \<and> length (join ''|'' [''Abs'', ''Add'']) \<le> 8
   \<and> sorted_wrt (<) [''Arg'', ''Xor''] \<and> length (join ''|'' [''Arg'', ''Xor'']) \<le> 8
   \<and> set (concat (matchBatches 8 [''Xor'', ''Abs'', ''Add'', ''Abs'', ''Arg''])) =
       {''Abs'', ''Add'', ''Arg'', ''Xor''}"
proof -
  have b: "matchBatches 8 [''Xor'', ''Abs'', ''Add'', ''Abs'', ''Arg''] =
             [[''Abs'', ''Add''], [''Arg'', ''Xor'']]"
    by (simp add: matchBatches_def newSet_def batch_all_def batch_step_def)
  from match_blocks_invariants[of "''function''" "[''Xor'', ''Abs'', ''Add'', ''Abs'', ''Arg'']"
         "''symbol''" 8]
  show ?thesis unfolding b by auto
qed

subsection \<open>The order of the highlight document\<close>

lemma join_mem_split: "x \<in> set xs \<Longrightarrow> \<exists>a b. join sep xs = a @ x @ b"
proof (induction sep xs rule: join.induct)
  case (1 sep)
  then show ?case by simp
next
  case (2 sep y)
  then have "join sep [y] = [] @ x @ []" by simp
  then show ?case by blast
next
  case (3 sep y z zs)
  show ?case
  proof (cases "x = y")
    case True
    then have "join sep (y # z # zs) = [] @ x @ (sep @ join sep (z # zs))" by simp
    then show ?thesis by blast
  next
    case False
    with 3 obtain a b where "join sep (z # zs) = a @ x @ b" by auto
    then have "join sep (y # z # zs) = (y @ sep @ a) @ x @ b" by simp
    then show ?thesis by blast
  qed
qed

lemma join_append:
  "xs \<noteq> [] \<Longrightarrow> ys \<noteq> [] \<Longrightarrow> join sep (xs @ ys) = join sep xs @ sep @ join sep ys"
proof (induction sep xs rule: join.induct)
  case (1 sep)
  then show ?case by simp
next
  case (2 sep x)
  then show ?case by (cases ys) auto
next
  case (3 sep x y zs)
  then show ?case by simp
qed

lemma scope_section_after_fallback:
  assumes "sec \<in> set (scopeSections symbolsByScope)"
  shows "\<exists>pre mid post.
           join [CHR 0x0A, CHR 0x0A] (sections symbolsByScope) =
             pre @ symbolFallbackRule @ mid @ sec @ post"
proof -
  let ?sep = "[CHR 0x0A, CHR 0x0A]"
  let ?head = "[headerSection, commentsSection, stringsSection, numbersSection, symbolsSection]"
  let ?rest = "[callsSection, systemVariablesSection] @ scopeSections symbolsByScope
     @ [assignmentSection, ruleSection, comparisonSection, logicalSection,
        arithmeticSection, applicationSection, otherSection, delimitersSection,
        separatorsSection]"
  have s: "sections symbolsByScope = ?head @ ?rest" by (simp add: sections_def)
  have "join ?sep (?head @ ?rest) = join ?sep ?head @ ?sep @ join ?sep ?rest"
    by (rule join_append) simp_all
  moreover obtain p where "join ?sep ?head = p @ symbolFallbackRule"
    by (simp add: symbolsSection_def text_lines_def)
  moreover from assms have "sec \<in> set ?rest" by simp
  then obtain a b where "join ?sep ?rest = a @ sec @ b"
    using join_mem_split by blast
  ultimately have "join ?sep (sections symbolsByScope) =
      p @ symbolFallbackRule @ (?sep @ a) @ sec @ b"
    using s by simp
  then show ?thesis by blast
qed

text \<open>A grammar with one pattern, of the scope of constants, and what the generator makes of it.\<close>

lemma extract_PiE: "extractSymbolNames ''Pi|E'' = [''Pi'', ''E'']"
proof -
  have 1: "stripSystemPrefix ''Pi|E'' = ''Pi|E''"
    by (simp add: stripSystemPrefix_def startsWith_def)
  have 2: "stripLookahead ''Pi|E'' = ''Pi|E''"
    by (simp add: lookaheadAt_def startsWith_def)
  have 3: "unwrapOuterGroup ''Pi|E'' = ''Pi|E''"
    by (simp add: unwrapOuterGroup_def startsWith_def)
  have 4: "expandTrie ''Pi|E'' = [''Pi'', ''E'']"
    by (simp add: expandTrie_def doExpand.simps splitTopLevel_def substring_def)
  have 5: "filter validSymbolName [''Pi'', ''E''] = [''Pi'', ''E'']"
    by (simp add: validSymbolName_def nameStart_def nameChar_def)
  show ?thesis by (simp only: extractSymbolNames_def Let_def 1 2 3 4 5)
qed

definition constants_grammar :: TmGrammar where
  "constants_grammar =
     \<lparr>repository = [(''symbols'',
        [\<lparr>match = Some ''Pi|E'', name = Some ''constant.language.wolfram''\<rparr>])]\<rparr>"

lemma extractByScope_constants:
  "extractByScope constants_grammar = [(''constant.language.wolfram'', [''Pi'', ''E''])]"
  by (simp add: extractByScope_def constants_grammar_def addPattern_def extract_PiE)

lemma matchBatches_PiE: "matchBatches 4000 [''Pi'', ''E''] = [[''E'', ''Pi'']]"
  by (simp add: matchBatches_def newSet_def batch_all_def batch_step_def)

lemma scopeSections_constants:
  \<open>scopeSections [(''constant.language.wolfram'', [''Pi'', ''E''])] =
     [''; constant.language (from vscode-wolfram)'' @ [CHR 0x0A]
      @ ''((symbol) @constant.builtin'' @ [CHR 0x0A]
      @ ''  (#match? @constant.builtin "^(E|Pi)$"))'']\<close>
  by (simp add: scopeSections_def scopeSection_def SCOPE_MAP_def startsWith_def
      generateMatchBlocks_batches matchBatches_PiE formatMatchBlock_def)

text \<open>
  Claim C7: in the highlight document that the generator assembles, the rule that maps
  every symbol node to the capture "variable" stands before every section of
  scope-specific match blocks: the section of the fallback rule is the fifth of the list
  of sections and the scope sections start at the eighth; and the document is some text,
  the fallback rule, some text, the section, some text.
\<close>

theorem fallback_before_scope_rules:
  "sections (extractByScope grammar) ! 4 = symbolsSection
   \<and> (\<forall>k < length (scopeSections (extractByScope grammar)).
         sections (extractByScope grammar) ! (7 + k) = scopeSections (extractByScope grammar) ! k)
   \<and> (\<forall>sec \<in> set (scopeSections (extractByScope grammar)).
         \<exists>pre mid post. highlights grammar = pre @ symbolFallbackRule @ mid @ sec @ post)"
proof (intro conjI ballI allI impI)
  show "sections (extractByScope grammar) ! 4 = symbolsSection"
    by (simp add: sections_def)
next
  fix k
  assume "k < length (scopeSections (extractByScope grammar))"
  then show "sections (extractByScope grammar) ! (7 + k) =
               scopeSections (extractByScope grammar) ! k"
    by (simp add: sections_def nth_append)
next
  fix sec
  assume "sec \<in> set (scopeSections (extractByScope grammar))"
  from scope_section_after_fallback[OF this] obtain pre mid post where
    "join [CHR 0x0A, CHR 0x0A] (sections (extractByScope grammar)) =
       pre @ symbolFallbackRule @ mid @ sec @ post" by blast
  then have "highlights grammar = pre @ symbolFallbackRule @ mid @ sec @ (post @ [CHR 0x0A])"
    by (simp add: highlights_def)
  then show "\<exists>pre mid post. highlights grammar = pre @ symbolFallbackRule @ mid @ sec @ post"
    by blast
qed

theorem fallback_before_scope_rules_witness:
  \<open>sections (extractByScope constants_grammar) ! 7 =
      ''; constant.language (from vscode-wolfram)'' @ [CHR 0x0A]
      @ ''((symbol) @constant.builtin'' @ [CHR 0x0A]
      @ ''  (#match? @constant.builtin "^(E|Pi)$"))''
   \<and> (\<exists>pre mid post. highlights constants_grammar =
         pre @ symbolFallbackRule @ mid
         @ (''; constant.language (from vscode-wolfram)'' @ [CHR 0x0A]
            @ ''((symbol) @constant.builtin'' @ [CHR 0x0A]
            @ ''  (#match? @constant.builtin "^(E|Pi)$"))'')
         @ post)\<close>
  using fallback_before_scope_rules[of constants_grammar]
  by (simp only: extractByScope_constants scopeSections_constants list.set ball_simps
        list.size length_Cons) simp

subsection \<open>Determinism\<close>

lemma paths_distinct:
  "TM_GRAMMAR_PATH \<noteq> HIGHLIGHTS_OUT" "TM_GRAMMAR_PATH \<noteq> BRACKETS_OUT"
  "HIGHLIGHTS_OUT \<noteq> BRACKETS_OUT"
  by (simp_all add: TM_GRAMMAR_PATH_def HIGHLIGHTS_OUT_def BRACKETS_OUT_def)

text \<open>
  Claim C8: two runs of the generator on the same grammar description write the same
  highlight document and the same bracket document, whatever else the files hold; and a
  second run after a first one leaves every file as it is.
\<close>

theorem generator_deterministic:
  assumes "files1 TM_GRAMMAR_PATH = files2 TM_GRAMMAR_PATH"
    and "main JSON_parse files1 = Inr out1"
  shows "(\<exists>out2. main JSON_parse files2 = Inr out2
            \<and> out2 HIGHLIGHTS_OUT = out1 HIGHLIGHTS_OUT
            \<and> out2 BRACKETS_OUT = out1 BRACKETS_OUT)
         \<and> main JSON_parse out1 = Inr out1"
proof -
  from assms(2) obtain doc grammar where
    t: "files1 TM_GRAMMAR_PATH = Some doc" and g: "JSON_parse doc = Some grammar" and
    o: "out1 = files1(HIGHLIGHTS_OUT \<mapsto> highlights grammar, BRACKETS_OUT \<mapsto> brackets)"
    by (auto simp: main_def split: option.splits)
  have "main JSON_parse files2 =
          Inr (files2(HIGHLIGHTS_OUT \<mapsto> highlights grammar, BRACKETS_OUT \<mapsto> brackets))"
  proof -
    from assms(1) t have "files2 TM_GRAMMAR_PATH = Some doc" by simp
    with g show ?thesis by (simp add: main_def)
  qed
  moreover have "out1 TM_GRAMMAR_PATH = Some doc"
    using t o paths_distinct by simp
  then have "main JSON_parse out1 = Inr out1"
    using g o by (simp add: main_def fun_upd_twist[OF paths_distinct(3)])
  ultimately show ?thesis using o paths_distinct by simp
qed

theorem generator_deterministic_witness:
  "(\<exists>out2. main (\<lambda>doc. Some constants_grammar)
              [TM_GRAMMAR_PATH \<mapsto> ''{}'', HIGHLIGHTS_OUT \<mapsto> ''stale''] = Inr out2
          \<and> out2 HIGHLIGHTS_OUT = Some (highlights constants_grammar)
          \<and> out2 BRACKETS_OUT = Some brackets)
   \<and> main (\<lambda>doc. Some constants_grammar)
        [TM_GRAMMAR_PATH \<mapsto> ''{}'', HIGHLIGHTS_OUT \<mapsto> highlights constants_grammar,
         BRACKETS_OUT \<mapsto> brackets]
      = Inr [TM_GRAMMAR_PATH \<mapsto> ''{}'', HIGHLIGHTS_OUT \<mapsto> highlights constants_grammar,
             BRACKETS_OUT \<mapsto> brackets]"
  using generator_deterministic[of "[TM_GRAMMAR_PATH \<mapsto> ''{}'']"
          "[TM_GRAMMAR_PATH \<mapsto> ''{}'', HIGHLIGHTS_OUT \<mapsto> ''stale'']"
          "\<lambda>doc. Some constants_grammar"
          "[TM_GRAMMAR_PATH \<mapsto> ''{}'', HIGHLIGHTS_OUT \<mapsto> highlights constants_grammar,
            BRACKETS_OUT \<mapsto> brackets]"]
  by (simp add: main_def paths_distinct paths_distinct[symmetric])

subsection \<open>What a match block applies to\<close>

text \<open>
  The engine that reads the highlight document applies a block to a node when the regular
  expression of its \<open>#match?\<close> predicate matches the text of the node. The engine is
  outside the repository; \<open>pattern_matches p t\<close> reads a pattern \<open>p\<close> of the form that
  \<open>formatMatchBlock\<close> writes, \<open>^(\<close> alternatives separated by \<open>|\<close> and then \<open>)$\<close>, for
  alternatives made of letters, digits and \<open>$\<close> (the characters of a name that passed the
  filter of \<open>extractSymbolNames\<close>). In a regular expression a letter or a digit stands
  for itself and an unescaped \<open>$\<close> asserts that the text ends here; the leading \<open>^\<close>
  lets a match start at the start of the text only and the closing \<open>$\<close> lets it end at
  the end of the text only. \<open>alternative_matches a t\<close>: the alternative \<open>a\<close>, followed by
  the closing \<open>$\<close>, matches the text \<open>t\<close> from its start.
\<close>

fun split_on :: "char \<Rightarrow> string \<Rightarrow> string list" where
  "split_on sep [] = [[]]"
| "split_on sep (c # cs) =
     (if c = sep then [] # split_on sep cs
      else (case split_on sep cs of [] \<Rightarrow> [[c]] | p # ps \<Rightarrow> (c # p) # ps))"

definition anchored_alternatives :: "string \<Rightarrow> string list option" where
  "anchored_alternatives p =
     (if 4 \<le> length p \<and> startsWith p ''^('' \<and> endsWith p '')$''
      then Some (split_on (CHR ''|'') (take (length p - 4) (drop 2 p))) else None)"

fun alternative_matches :: "string \<Rightarrow> string \<Rightarrow> bool" where
  "alternative_matches [] t = (t = [])"
| "alternative_matches (c # cs) t =
     (if c = CHR ''$'' then t = [] \<and> alternative_matches cs t
      else (case t of [] \<Rightarrow> False | x # xs \<Rightarrow> x = c \<and> alternative_matches cs xs))"

definition pattern_matches :: "string \<Rightarrow> string \<Rightarrow> bool" where
  "pattern_matches p t =
     (case anchored_alternatives p of
        None \<Rightarrow> False
      | Some alts \<Rightarrow> list_ex (\<lambda>a. alternative_matches a t) alts)"

lemma split_on_nonempty: "split_on sep s \<noteq> []"
  by (induction s) (auto split: list.splits)

lemma split_on_free: "sep \<notin> set s \<Longrightarrow> split_on sep s = [s]"
  by (induction s) auto

lemma split_on_append:
  "sep \<notin> set a \<Longrightarrow> split_on sep (a @ sep # s) = a # split_on sep s"
  by (induction a) auto

lemma split_on_join:
  "names \<noteq> [] \<Longrightarrow> \<forall>n \<in> set names. sep \<notin> set n \<Longrightarrow>
     split_on sep (join [sep] names) = names"
proof (induction "[sep]" names rule: join.induct)
  case 1
  then show ?case by simp
next
  case (2 x)
  then show ?case by (simp add: split_on_free)
next
  case (3 x y ys)
  then show ?case by (simp add: split_on_append)
qed

lemma nameChar_not_bar: "nameChar c \<Longrightarrow> c \<noteq> CHR ''|''"
  by (auto simp: nameChar_def nameStart_def)

lemma validSymbolName_no_bar: "validSymbolName n \<Longrightarrow> CHR ''|'' \<notin> set n"
proof (cases n)
  case Nil
  then show ?thesis by simp
next
  case (Cons c cs)
  assume "validSymbolName n"
  with Cons have "nameChar c" and "\<forall>d \<in> set cs. nameChar d"
    by (simp_all add: validSymbolName_def list_all_iff nameChar_def)
  then have "\<forall>d \<in> set (c # cs). d \<noteq> CHR ''|''"
    using nameChar_not_bar by auto
  with Cons show ?thesis by auto
qed

lemma anchored_alternatives_block:
  assumes "names \<noteq> []" and "list_all validSymbolName names"
  shows "anchored_alternatives (''^('' @ join ''|'' names @ '')$'') = Some names"
proof -
  have "\<forall>n \<in> set names. CHR ''|'' \<notin> set n"
    using assms(2) by (simp add: list_all_iff validSymbolName_no_bar)
  with assms(1) have "split_on (CHR ''|'') (join ''|'' names) = names"
    by (rule split_on_join)
  then show ?thesis
    by (simp add: anchored_alternatives_def startsWith_def endsWith_def)
qed

lemma alternative_matches_iff:
  "alternative_matches n t \<longleftrightarrow>
     CHR ''$'' \<notin> set t \<and> (\<exists>k. n = t @ replicate k (CHR ''$''))"
proof (induction n arbitrary: t)
  case Nil
  then show ?case by auto
next
  case (Cons c cs)
  show ?case
  proof (cases "c = CHR ''$''")
    case True
    have "(\<exists>k. c # cs = replicate k (CHR ''$'')) \<longleftrightarrow> (\<exists>k. cs = replicate k (CHR ''$''))"
    proof
      assume "\<exists>k. c # cs = replicate k (CHR ''$'')"
      then obtain k where k: "c # cs = replicate k (CHR ''$'')" ..
      then show "\<exists>k. cs = replicate k (CHR ''$'')" by (cases k) auto
    next
      assume "\<exists>k. cs = replicate k (CHR ''$'')"
      then obtain k where "cs = replicate k (CHR ''$'')" ..
      with True have "c # cs = replicate (Suc k) (CHR ''$'')" by simp
      then show "\<exists>k. c # cs = replicate k (CHR ''$'')" ..
    qed
    with True Cons.IH[of "[]"] show ?thesis
      by (cases t) auto
  next
    case False
    show ?thesis
    proof (cases t)
      case Nil
      with False show ?thesis
        by (auto simp: Cons_replicate_eq)
    next
      case (Cons x xs)
      with False Cons.IH[of xs] show ?thesis by auto
    qed
  qed
qed

text \<open>
  The pattern of a block of symbol names applies to a text exactly when the text, with
  some number of \<open>$\<close> appended (none, or more), is one of the names, and holds no \<open>$\<close>
  itself: a name without \<open>$\<close> is matched by its own text only, a name that ends in \<open>$\<close>
  by the text before its last \<open>$\<close> signs, and a name with \<open>$\<close> elsewhere by nothing.
\<close>

lemma block_pattern_matches_iff:
  assumes "names \<noteq> []" and "list_all validSymbolName names"
  shows "pattern_matches (''^('' @ join ''|'' names @ '')$'') t \<longleftrightarrow>
           CHR ''$'' \<notin> set t \<and> (\<exists>n \<in> set names. \<exists>k. n = t @ replicate k (CHR ''$''))"
proof -
  have "pattern_matches (''^('' @ join ''|'' names @ '')$'') t \<longleftrightarrow>
          (\<exists>n \<in> set names. alternative_matches n t)"
    unfolding pattern_matches_def anchored_alternatives_block[OF assms]
    by (simp add: list_ex_iff)
  then show ?thesis by (auto simp: alternative_matches_iff)
qed

lemma extractSymbolNames_a_dollar: "extractSymbolNames ''a$'' = [''a$'']"
proof -
  have 1: "stripSystemPrefix ''a$'' = ''a$''"
    by (simp add: stripSystemPrefix_def startsWith_def)
  have 2: "stripLookahead ''a$'' = ''a$''"
    by (simp add: lookaheadAt_def startsWith_def)
  have 3: "unwrapOuterGroup ''a$'' = ''a$''"
    by (simp add: unwrapOuterGroup_def startsWith_def)
  have 4: "expandTrie ''a$'' = [''a$'']"
    by (simp add: expandTrie_def doExpand.simps)
  have 5: "filter validSymbolName [''a$''] = [''a$'']"
    by (simp add: validSymbolName_def nameStart_def nameChar_def)
  show ?thesis by (simp only: extractSymbolNames_def Let_def 1 2 3 4 5)
qed

lemma generateMatchBlocks_a_dollar:
  \<open>generateMatchBlocks ''function.builtin'' [''a$''] ''symbol'' 4000 =
     ''((symbol) @function.builtin'' @ [CHR 0x0A]
     @ ''  (#match? @function.builtin "'' @ ''^(a$)$'' @ ''"))''\<close>
proof -
  have "matchBatches 4000 [''a$''] = [[''a$'']]"
    by (simp add: matchBatches_def newSet_def batch_all_def batch_step_def)
  then show ?thesis
    by (simp add: generateMatchBlocks_batches formatMatchBlock_def)
qed

text \<open>
  Claim C10: every generated block has a pattern \<open>^(name1|...|nameN)$\<close>, so that it
  applies to a node only when the whole text of the node is one of its names. The names
  are written into the pattern unescaped (the hand-written rule for system variables
  escapes its \<open>$\<close>). The name \<open>a$\<close> passes the filter of \<open>extractSymbolNames\<close>; the block
  generated for it has the pattern \<open>^(a$)$\<close>, which applies to the text \<open>a\<close>, not a name
  of the block, and does not apply to \<open>a$\<close>.
\<close>

theorem unescaped_dollar_in_block_pattern:
  \<open>extractSymbolNames ''a$'' = [''a$'']
   \<and> generateMatchBlocks ''function.builtin'' [''a$''] ''symbol'' 4000 =
       ''((symbol) @function.builtin'' @ [CHR 0x0A]
       @ ''  (#match? @function.builtin "'' @ ''^(a$)$'' @ ''"))''
   \<and> pattern_matches ''^(a$)$'' ''a'' \<and> ''a'' \<notin> set [''a$'']
   \<and> \<not> pattern_matches ''^(a$)$'' ''a$''\<close>
proof -
  have "pattern_matches ''^(a$)$'' ''a''" and "\<not> pattern_matches ''^(a$)$'' ''a$''"
    by (simp_all add: pattern_matches_def anchored_alternatives_def startsWith_def endsWith_def)
  with extractSymbolNames_a_dollar generateMatchBlocks_a_dollar show ?thesis by simp
qed

end
